theory Spec2Isabelle
  imports Complex_Main
begin

section \<open>The node tree of \<^verbatim>\<open>textual/dom.py\<close> and the button of \<^verbatim>\<open>textual/widgets/_button.py\<close>\<close>

text \<open>
  Python objects are mutable and referred to by identity, so a node is an address into a
  heap and the parent pointer and the children list hold addresses. Every method of
  \<^verbatim>\<open>DOMNode\<close> becomes a function that takes the state (and \<^verbatim>\<open>self\<close> as an
  address) and returns what the call returned or raised together with the state it left
  behind. A raised exception is \<open>Inl\<close> of an \<open>error\<close>.

  Python's private attributes start with an underscore, which an Isabelle name cannot:
  \<^verbatim>\<open>_id\<close>, \<^verbatim>\<open>_name\<close>, \<^verbatim>\<open>_classes\<close>, \<^verbatim>\<open>_parent\<close>, \<^verbatim>\<open>_css_styles\<close> and
  \<^verbatim>\<open>_inline_styles\<close> are the fields \<open>n_id\<close>, \<open>n_name\<close>, \<open>n_classes\<close>, \<open>n_parent\<close>,
  \<open>n_css_styles\<close> and \<open>n_inline_styles\<close>.
\<close>

subsection \<open>Values\<close>

type_synonym addr = nat

text \<open>
  \<^verbatim>\<open>Color(r, g, b, a)\<close> of \<^verbatim>\<open>textual/color.py\<close>. The alpha channel is a Python float
  that \<^verbatim>\<open>dom.py\<close> only stores and passes on; it is read as a real number.
\<close>

datatype color = Color int int int real

text \<open>
  One style layer (\<^verbatim>\<open>Styles\<close>). A rule that is not set in the layer is \<open>None\<close>, so that
  \<^verbatim>\<open>has_rule\<close> tells "unset" from "set to the default". The type \<open>'s\<close> is the text
  style of the rendering library (\<^verbatim>\<open>rich.style.Style\<close>).
\<close>

record 's styles =
  display :: "string option"
  visibility :: "string option"
  background :: "color option"
  color :: "color option"
  text_style :: "'s option"

definition no_styles :: "'s styles" where
  "no_styles = \<lparr>display = None, visibility = None, background = None, color = None,
     text_style = None\<rparr>"

text \<open>The exceptions that \<^verbatim>\<open>dom.py\<close> raises or catches, each with its message.\<close>

datatype error =
    ValueError string
  | StyleValueError string
  | NoMatchingNodesError string
  | LookupError

text \<open>
  What a timer calls when it expires. \<^verbatim>\<open>_button.py\<close> builds one callback only,
  \<^verbatim>\<open>partial(self.remove_class, "-active")\<close>: the node and the class names.
\<close>

datatype callback = RemoveClass addr "string list"

text \<open>The messages a button posts: \<^verbatim>\<open>Button.Pressed(self)\<close>.\<close>

datatype message = Pressed addr

text \<open>
  A node. \<open>n_parent\<close>, the message queue and the pending timers belong to
  \<^verbatim>\<open>MessagePump\<close>, the base class of \<^verbatim>\<open>DOMNode\<close>, and \<open>disabled\<close> to \<^verbatim>\<open>Widget\<close>;
  neither class is among the source files, so only the fields that \<^verbatim>\<open>dom.py\<close> and
  \<^verbatim>\<open>_button.py\<close> read or write are kept. \<^verbatim>\<open>DOMNode.parent\<close> is declared to return
  \<^verbatim>\<open>DOMNode | None\<close>, so a parent is the address of a node or \<open>None\<close>.
\<close>

record 's node =
  n_name :: "string option"
  n_id :: "string option"
  n_classes :: "string set"
  children :: "addr list"
  n_css_styles :: "'s styles"
  n_inline_styles :: "'s styles"
  n_parent :: "addr option"
  disabled :: bool
  message_queue :: "message list"
  timers :: "(real \<times> callback) list"

text \<open>
  The state: the heap of nodes and the application context (the context variable that
  \<^verbatim>\<open>self.app\<close> reads), \<open>None\<close> while no application is attached.
\<close>

record 's state =
  heap :: "addr \<Rightarrow> 's node"
  active_app :: "addr option"

definition update_node :: "'s state \<Rightarrow> addr \<Rightarrow> ('s node \<Rightarrow> 's node) \<Rightarrow> 's state" where
  "update_node s a f = s\<lparr>heap := (heap s)(a := f (heap s a))\<rparr>"

text \<open>
  What \<^verbatim>\<open>dom.py\<close> imports and the source files do not hold, taken as parameters:
  Python's \<^verbatim>\<open>repr\<close> of a string, \<^verbatim>\<open>friendly_list\<close> of \<^verbatim>\<open>css/_error_tools.py\<close>, the
  two sets of \<^verbatim>\<open>css/constants.py\<close>, and \<^verbatim>\<open>Stylesheet.update\<close>, which is given the
  application and the heap and answers with the new cascade layer of every node.
\<close>

record 's env =
  py_repr :: "string \<Rightarrow> string"
  friendly_list :: "string set \<Rightarrow> string"
  VALID_DISPLAY :: "string set"
  VALID_VISIBILITY :: "string set"
  stylesheet_update :: "addr \<Rightarrow> (addr \<Rightarrow> 's node) \<Rightarrow> addr \<Rightarrow> 's styles"

subsection \<open>The \<^verbatim>\<open>id\<close> property\<close>

definition id_getter :: "'s state \<Rightarrow> addr \<Rightarrow> string option" where
  "id_getter s self = n_id (heap s self)"

text \<open>
  \<^verbatim>\<open>
  if self._id is not None:
      raise ValueError(
          f"Node 'id' attribute may not be changed once set (current id={self._id!r})")
  self._id = new_id
  return new_id
  \<close>
\<close>

definition id_setter ::
  "'s env \<Rightarrow> 's state \<Rightarrow> addr \<Rightarrow> string \<Rightarrow> (error + string) \<times> 's state" where
  "id_setter E s self new_id =
     (case n_id (heap s self) of
        Some cur \<Rightarrow>
          (Inl (ValueError (''Node '' @ [CHR 0x27] @ ''id'' @ [CHR 0x27]
             @ '' attribute may not be changed once set (current id='' @ py_repr E cur
             @ '')'')), s)
      | None \<Rightarrow> (Inr new_id, update_node s self (\<lambda>n. n\<lparr>n_id := Some new_id\<rparr>)))"

subsection \<open>\<^verbatim>\<open>get_child\<close>\<close>

text \<open>
  \<^verbatim>\<open>
  for child in self.children:
      if child.id == id:
          return child
  raise NoMatchingNodesError(f"No child found with id={id!r}")
  \<close>
  The loop runs over the children list; \<open>None\<close> is "fell off the end".
\<close>

fun get_child_loop :: "'s state \<Rightarrow> addr list \<Rightarrow> string \<Rightarrow> addr option" where
  "get_child_loop s [] i = None"
| "get_child_loop s (child # rest) i =
     (if id_getter s child = Some i then Some child else get_child_loop s rest i)"

definition get_child :: "'s env \<Rightarrow> 's state \<Rightarrow> addr \<Rightarrow> string \<Rightarrow> error + addr" where
  "get_child E s self i =
     (case get_child_loop s (children (heap s self)) i of
        Some child \<Rightarrow> Inr child
      | None \<Rightarrow> Inl (NoMatchingNodesError (''No child found with id='' @ py_repr E i)))"

subsection \<open>The merged view of the two style layers\<close>

text \<open>
  Modelled from the spec: \<^verbatim>\<open>RenderStyles\<close> of \<^verbatim>\<open>css/styles.py\<close>, which is not among
  the source files. The spec: two style layers, "exposed as one merged read view where
  inline values shadow cascade values per property"; the inline layer is "written by
  direct user/programmatic assignment"; "a property absent from a layer falls through to
  the next layer, ultimately to a built-in default"; and \<^verbatim>\<open>has_rule\<close> "must distinguish
  unset from set to default". \<open>get_rule\<close> is the read without the default.
\<close>

definition get_rule :: "('s styles \<Rightarrow> 'v option) \<Rightarrow> 's node \<Rightarrow> 'v option" where
  "get_rule f n = (case f (n_inline_styles n) of Some v \<Rightarrow> Some v | None \<Rightarrow> f (n_css_styles n))"

text \<open>
  Modelled from the spec: \<^verbatim>\<open>RenderStyles.has_rule\<close> of \<^verbatim>\<open>css/styles.py\<close>, which is not
  among the source files. The spec: a property is set in the merged view when a layer
  holds it, and "unset" is not "set to default".
\<close>

definition has_rule :: "('s styles \<Rightarrow> 'v option) \<Rightarrow> 's node \<Rightarrow> bool" where
  "has_rule f n \<longleftrightarrow> get_rule f n \<noteq> None"

text \<open>
  Modelled from the spec: the assignment \<^verbatim>\<open>self.styles.display = v\<close>, which
  \<^verbatim>\<open>css/styles.py\<close> (not among the source files) carries out. The spec: the inline layer
  is the one "written by direct user/programmatic assignment".
\<close>

definition assign_display :: "string \<Rightarrow> 's node \<Rightarrow> 's node" where
  "assign_display v n = n\<lparr>n_inline_styles := (n_inline_styles n)\<lparr>display := Some v\<rparr>\<rparr>"

text \<open>
  Modelled from the spec: the assignment \<^verbatim>\<open>self.styles.visibility = v\<close>, as for
  \<^verbatim>\<open>display\<close>.
\<close>

definition assign_visibility :: "string \<Rightarrow> 's node \<Rightarrow> 's node" where
  "assign_visibility v n = n\<lparr>n_inline_styles := (n_inline_styles n)\<lparr>visibility := Some v\<rparr>\<rparr>"

subsection \<open>The \<^verbatim>\<open>display\<close> and \<^verbatim>\<open>visible\<close> properties\<close>

text \<open>
  \<^verbatim>\<open>return self.styles.display != "none"\<close>. The built-in default of the property is
  \<^verbatim>\<open>"block"\<close>, as the comment in the setter says ("we'll reset to the default "block"").
\<close>

definition display_getter :: "'s state \<Rightarrow> addr \<Rightarrow> bool" where
  "display_getter s self \<longleftrightarrow>
     (case get_rule display (heap s self) of Some v \<Rightarrow> v | None \<Rightarrow> ''block'') \<noteq> ''none''"

text \<open>The setters are declared for \<^verbatim>\<open>bool | str\<close>.\<close>

datatype py_value = PyBool bool | PyStr string

text \<open>
  \<^verbatim>\<open>
  if isinstance(new_val, bool):
      self.styles.display = "block" if new_val else "none"
  elif new_val in VALID_DISPLAY:
      self.styles.display = new_val
  else:
      raise StyleValueError(
          f"invalid value for display (received {new_val!r}, "
          f"expected {friendly_list(VALID_DISPLAY)})")
  \<close>
\<close>

definition display_setter ::
  "'s env \<Rightarrow> 's state \<Rightarrow> addr \<Rightarrow> py_value \<Rightarrow> (error + unit) \<times> 's state" where
  "display_setter E s self new_val =
     (case new_val of
        PyBool b \<Rightarrow> (Inr (), update_node s self (assign_display (if b then ''block'' else ''none'')))
      | PyStr v \<Rightarrow>
          if v \<in> VALID_DISPLAY E then (Inr (), update_node s self (assign_display v))
          else (Inl (StyleValueError (''invalid value for display (received '' @ py_repr E v
                  @ '', expected '' @ friendly_list E (VALID_DISPLAY E) @ '')'')), s))"

text \<open>
  \<^verbatim>\<open>
  if isinstance(new_value, bool):
      self.styles.visibility = "visible" if new_value else "hidden"
  elif new_value in VALID_VISIBILITY:
      self.styles.visibility = new_value
  else:
      raise StyleValueError(
          f"invalid value for visibility (received {new_value!r}, "
          f"expected {friendly_list(VALID_VISIBILITY)})")
  \<close>
\<close>

definition visible_setter ::
  "'s env \<Rightarrow> 's state \<Rightarrow> addr \<Rightarrow> py_value \<Rightarrow> (error + unit) \<times> 's state" where
  "visible_setter E s self new_value =
     (case new_value of
        PyBool b \<Rightarrow>
          (Inr (), update_node s self (assign_visibility (if b then ''visible'' else ''hidden'')))
      | PyStr v \<Rightarrow>
          if v \<in> VALID_VISIBILITY E then (Inr (), update_node s self (assign_visibility v))
          else (Inl (StyleValueError (''invalid value for visibility (received '' @ py_repr E v
                  @ '', expected '' @ friendly_list E (VALID_VISIBILITY E) @ '')'')), s))"

subsection \<open>\<^verbatim>\<open>add_child\<close> and \<^verbatim>\<open>add_children\<close>\<close>

text \<open>
  Modelled from the spec: \<^verbatim>\<open>NodeList._append\<close> of \<^verbatim>\<open>_node_list.py\<close>, which is not
  among the source files. The spec: "\<^verbatim>\<open>append(node)\<close> adds at the end", "preserving
  order". The list is made by \<^verbatim>\<open>NodeList()\<close> with no argument and \<^verbatim>\<open>_append\<close> is given
  the new node only, so it has no access to the node that owns the list. Appending a node
  that is in the list already is "a caller error" in the spec; nothing below does so.
\<close>

definition NodeList_append :: "'s state \<Rightarrow> addr \<Rightarrow> addr \<Rightarrow> 's state" where
  "NodeList_append s owner node = update_node s owner (\<lambda>n. n\<lparr>children := children n @ [node]\<rparr>)"

text \<open>
  Modelled from the spec: \<^verbatim>\<open>MessagePump.set_parent\<close> of \<^verbatim>\<open>message_pump.py\<close>, which is
  not among the source files. The spec: "\<^verbatim>\<open>add_child(node)\<close> sets parent and appends".
\<close>

definition set_parent :: "'s state \<Rightarrow> addr \<Rightarrow> addr \<Rightarrow> 's state" where
  "set_parent s node parent = update_node s node (\<lambda>n. n\<lparr>n_parent := Some parent\<rparr>)"

text \<open>
  \<^verbatim>\<open>
  self.children._append(node)
  node.set_parent(self)
  \<close>
\<close>

definition add_child :: "'s state \<Rightarrow> addr \<Rightarrow> addr \<Rightarrow> 's state" where
  "add_child s self node = set_parent (NodeList_append s self node) node self"

text \<open>
  \<^verbatim>\<open>
  _append = self.children._append
  for node in nodes:
      _append(node)
  for node_id, node in named_nodes.items():
      _append(node)
      node.id = node_id
  \<close>
  The keyword arguments are a dictionary in the order they were written: a list of
  pairs. An id that is already set makes the assignment raise, which ends the loop.
\<close>

fun add_children_nodes :: "'s state \<Rightarrow> addr \<Rightarrow> addr list \<Rightarrow> 's state" where
  "add_children_nodes s self [] = s"
| "add_children_nodes s self (node # nodes) =
     add_children_nodes (NodeList_append s self node) self nodes"

fun add_children_named ::
  "'s env \<Rightarrow> 's state \<Rightarrow> addr \<Rightarrow> (string \<times> addr) list \<Rightarrow> (error + unit) \<times> 's state" where
  "add_children_named E s self [] = (Inr (), s)"
| "add_children_named E s self ((node_id, node) # named_nodes) =
     (case id_setter E (NodeList_append s self node) node node_id of
        (Inl e, s') \<Rightarrow> (Inl e, s')
      | (Inr _, s') \<Rightarrow> add_children_named E s' self named_nodes)"

definition add_children ::
  "'s env \<Rightarrow> 's state \<Rightarrow> addr \<Rightarrow> addr list \<Rightarrow> (string \<times> addr) list \<Rightarrow> (error + unit) \<times> 's state" where
  "add_children E s self nodes named_nodes =
     add_children_named E (add_children_nodes s self nodes) self named_nodes"

subsection \<open>\<^verbatim>\<open>walk_children\<close>\<close>

text \<open>
  \<^verbatim>\<open>
  stack: list[Iterator[DOMNode]] = [iter(self.children)]
  if with_self:
      yield self
  while stack:
      node = next(stack[-1], None)
      if node is None:
          pop()
      else:
          yield node
          if node.children:
              push(iter(node.children))
  \<close>
  An iterator over a children list is the list of the children it has not yet given.
  The top of the stack, \<^verbatim>\<open>stack[-1]\<close>, is the head of the list. The generator's result
  is the list of the nodes it yields, in order; the loop may run forever on a heap whose
  children lists go round in a circle, so the result is an \<open>option\<close> and \<open>None\<close> is "the
  generator never ends". A children list is true in \<^verbatim>\<open>if node.children\<close> when it is not
  empty.
\<close>

partial_function (option) walk_children_loop ::
  "'s state \<Rightarrow> addr list list \<Rightarrow> addr list \<Rightarrow> addr list option" where
  "walk_children_loop s stack yielded =
     (case stack of
        [] \<Rightarrow> Some yielded
      | iterator # below \<Rightarrow>
          (case iterator of
             [] \<Rightarrow> walk_children_loop s below yielded
           | node # rest \<Rightarrow>
               if children (heap s node) \<noteq> []
               then walk_children_loop s (children (heap s node) # rest # below) (yielded @ [node])
               else walk_children_loop s (rest # below) (yielded @ [node])))"

definition walk_children :: "'s state \<Rightarrow> addr \<Rightarrow> bool \<Rightarrow> addr list option" where
  "walk_children s self with_self =
     walk_children_loop s [children (heap s self)] (if with_self then [self] else [])"

subsection \<open>\<^verbatim>\<open>ancestors\<close> and \<^verbatim>\<open>css_path_nodes\<close>\<close>

text \<open>
  \<^verbatim>\<open>
  nodes: list[DOMNode] = [self]
  node = self
  while True:
      node = node.parent
      if node is None:
          break
      add_node(node)
  return nodes
  \<close>
  The loop follows parent pointers and does not end on a heap where they go round in a
  circle: the result is an \<open>option\<close>.
\<close>

partial_function (option) ancestors_loop ::
  "'s state \<Rightarrow> addr \<Rightarrow> addr list \<Rightarrow> addr list option" where
  "ancestors_loop s node nodes =
     (case n_parent (heap s node) of
        None \<Rightarrow> Some nodes
      | Some p \<Rightarrow> ancestors_loop s p (nodes @ [p]))"

definition ancestors :: "'s state \<Rightarrow> addr \<Rightarrow> addr list option" where
  "ancestors s self = ancestors_loop s self [self]"

text \<open>
  \<^verbatim>\<open>
  result: list[DOMNode] = [self]
  node: DOMNode = self
  while isinstance(node._parent, DOMNode):
      node = node._parent
      append(node)
  return result[::-1]
  \<close>
  Every parent in the heap is a \<^verbatim>\<open>DOMNode\<close>, so the test fails for \<open>None\<close> only.
\<close>

partial_function (option) css_path_nodes_loop ::
  "'s state \<Rightarrow> addr \<Rightarrow> addr list \<Rightarrow> addr list option" where
  "css_path_nodes_loop s node result =
     (case n_parent (heap s node) of
        Some p \<Rightarrow> css_path_nodes_loop s p (result @ [p])
      | None \<Rightarrow> Some (rev result))"

definition css_path_nodes :: "'s state \<Rightarrow> addr \<Rightarrow> addr list option" where
  "css_path_nodes s self = css_path_nodes_loop s self [self]"

subsection \<open>\<^verbatim>\<open>rich_text_style\<close>\<close>

text \<open>
  The operations of \<^verbatim>\<open>textual/color.py\<close> and of the rendering library that
  \<^verbatim>\<open>rich_text_style\<close> calls, taken as parameters: \<^verbatim>\<open>Color.__add__\<close> (the alpha
  composite), \<^verbatim>\<open>Color.rich_color\<close>, the constructor \<^verbatim>\<open>Style(bgcolor=, color=)\<close> (with
  \<^verbatim>\<open>Style()\<close> as \<open>Style None None\<close>), \<^verbatim>\<open>Style.__add__\<close>, and the built-in default of
  the \<^verbatim>\<open>text_style\<close> rule.
\<close>

record ('r, 's) rich =
  color_add :: "color \<Rightarrow> color \<Rightarrow> color"
  rich_color :: "color \<Rightarrow> 'r"
  Style :: "'r option \<Rightarrow> 'r option \<Rightarrow> 's"
  style_add :: "'s \<Rightarrow> 's \<Rightarrow> 's"
  default_text_style :: "'s"

text \<open>
  \<^verbatim>\<open>
  background = Color(0, 0, 0, 0)
  color = Color(255, 255, 255, 0)
  style = Style()
  for node in reversed(self.ancestors):
      styles = node.styles
      if styles.has_rule("background"):
          background += styles.background
      if styles.has_rule("color"):
          color = styles.color
      style += styles.text_style
  style = Style(bgcolor=background.rich_color, color=color.rich_color) + style
  return style
  \<close>
  The loop carries the three variables. The test \<^verbatim>\<open>has_rule\<close> and the read behind it are
  the one lookup \<open>get_rule\<close>.
\<close>

fun rich_text_style_loop ::
  "('r, 's) rich \<Rightarrow> 's state \<Rightarrow> addr list \<Rightarrow> color \<times> color \<times> 's \<Rightarrow> color \<times> color \<times> 's" where
  "rich_text_style_loop R s [] vars = vars"
| "rich_text_style_loop R s (node # rest) (bg, fg, style) =
     rich_text_style_loop R s rest
       ((case get_rule background (heap s node) of Some b \<Rightarrow> color_add R bg b | None \<Rightarrow> bg),
        (case get_rule color (heap s node) of Some c \<Rightarrow> c | None \<Rightarrow> fg),
        style_add R style
          (case get_rule text_style (heap s node) of Some t \<Rightarrow> t | None \<Rightarrow> default_text_style R))"

definition rich_text_style :: "('r, 's) rich \<Rightarrow> 's state \<Rightarrow> addr \<Rightarrow> 's option" where
  "rich_text_style R s self =
     (case ancestors s self of
        None \<Rightarrow> None
      | Some nodes \<Rightarrow>
          (case rich_text_style_loop R s (rev nodes)
                  (Color 0 0 0 0, Color 255 255 255 0, Style R None None) of
             (bg, fg, style) \<Rightarrow>
               Some (style_add R (Style R (Some (rich_color R bg)) (Some (rich_color R fg))) style)))"

subsection \<open>\<^verbatim>\<open>add_class\<close>, \<^verbatim>\<open>remove_class\<close>, \<^verbatim>\<open>toggle_class\<close>\<close>

text \<open>
  Modelled from the spec: \<^verbatim>\<open>MessagePump.app\<close> of \<^verbatim>\<open>message_pump.py\<close>, which is not
  among the source files. The spec: "a node operation that requires an attached
  application context" finds none "when the node is detached"; the source catches
  \<^verbatim>\<open>LookupError\<close> around the read.
\<close>

definition app :: "'s state \<Rightarrow> addr \<Rightarrow> error + addr" where
  "app s self = (case active_app s of None \<Rightarrow> Inl LookupError | Some a \<Rightarrow> Inr a)"

text \<open>
  Modelled from the spec: \<^verbatim>\<open>Stylesheet.update\<close> of \<^verbatim>\<open>css/stylesheet.py\<close>, which is not
  among the source files. The spec: the application context is asked "to recompute styles
  for the whole application tree (not just this node)", and the cascade layer is "written
  only by the Cascade Engine", which never touches the inline layer. What the new layers
  are is the parameter \<open>stylesheet_update\<close>.
\<close>

definition Stylesheet_update :: "'s env \<Rightarrow> 's state \<Rightarrow> addr \<Rightarrow> 's state" where
  "Stylesheet_update E s a =
     s\<lparr>heap := (\<lambda>x. (heap s x)\<lparr>n_css_styles := stylesheet_update E a (heap s) x\<rparr>)\<rparr>"

text \<open>
  \<^verbatim>\<open>DOMNode.refresh\<close>: \<^verbatim>\<open>pass\<close>. A button inherits the \<^verbatim>\<open>refresh\<close> of \<^verbatim>\<open>Widget\<close>,
  which is not among the source files and asks for a repaint; a repaint request touches
  no field of the state kept here.
\<close>

definition refresh :: "'s state \<Rightarrow> addr \<Rightarrow> 's state" where
  "refresh s self = s"

text \<open>
  \<^verbatim>\<open>
  try:
      self.app.stylesheet.update(self.app, animate=True)
      self.refresh()
  except LookupError:
      pass
  \<close>
  \<open>update_and_refresh\<close> is the body of the \<^verbatim>\<open>try\<close>, \<open>except_LookupError\<close> the handler.
\<close>

definition update_and_refresh :: "'s env \<Rightarrow> 's state \<Rightarrow> addr \<Rightarrow> (error + unit) \<times> 's state" where
  "update_and_refresh E s self =
     (case app s self of
        Inl e \<Rightarrow> (Inl e, s)
      | Inr a \<Rightarrow> (Inr (), refresh (Stylesheet_update E s a) self))"

fun except_LookupError :: "(error + unit) \<times> 's state \<Rightarrow> (error + unit) \<times> 's state" where
  "except_LookupError (Inl LookupError, s) = (Inr (), s)"
| "except_LookupError r = r"

text \<open>\<^verbatim>\<open>self._classes.update(class_names)\<close>, then the \<^verbatim>\<open>try\<close>.\<close>

definition add_class :: "'s env \<Rightarrow> 's state \<Rightarrow> addr \<Rightarrow> string list \<Rightarrow> (error + unit) \<times> 's state" where
  "add_class E s self class_names =
     except_LookupError (update_and_refresh E
       (update_node s self (\<lambda>n. n\<lparr>n_classes := n_classes n \<union> set class_names\<rparr>)) self)"

text \<open>\<^verbatim>\<open>self._classes.difference_update(class_names)\<close>, then the \<^verbatim>\<open>try\<close>.\<close>

definition remove_class :: "'s env \<Rightarrow> 's state \<Rightarrow> addr \<Rightarrow> string list \<Rightarrow> (error + unit) \<times> 's state" where
  "remove_class E s self class_names =
     except_LookupError (update_and_refresh E
       (update_node s self (\<lambda>n. n\<lparr>n_classes := n_classes n - set class_names\<rparr>)) self)"

text \<open>
  \<^verbatim>\<open>self._classes.symmetric_difference_update(class_names)\<close>, then the \<^verbatim>\<open>try\<close>. Python
  turns the tuple of names into a set before it takes the symmetric difference, so a name
  given twice is toggled once.
\<close>

definition toggle_class :: "'s env \<Rightarrow> 's state \<Rightarrow> addr \<Rightarrow> string list \<Rightarrow> (error + unit) \<times> 's state" where
  "toggle_class E s self class_names =
     except_LookupError (update_and_refresh E
       (update_node s self (\<lambda>n. n\<lparr>n_classes := sym_diff (n_classes n) (set class_names)\<rparr>)) self)"

definition classes :: "'s state \<Rightarrow> addr \<Rightarrow> string set" where
  "classes s self = n_classes (heap s self)"

subsection \<open>\<^verbatim>\<open>Button.press\<close>\<close>

text \<open>\<^verbatim>\<open>ACTIVE_EFFECT_DURATION = 0.3\<close>: the literal, read as the real number \<open>3/10\<close>.\<close>

definition ACTIVE_EFFECT_DURATION :: real where
  "ACTIVE_EFFECT_DURATION = 0.3"

text \<open>
  Modelled from the spec: \<^verbatim>\<open>MessagePump.set_timer\<close> of \<^verbatim>\<open>message_pump.py\<close>, which is not
  among the source files. The spec: "Timers (e.g., clear a transient class after N
  seconds) are modeled as a delayed message posted to the owning node's queue". A pending
  timer is its delay and its callback.
\<close>

definition set_timer :: "'s state \<Rightarrow> addr \<Rightarrow> real \<Rightarrow> callback \<Rightarrow> 's state" where
  "set_timer s self delay cb = update_node s self (\<lambda>n. n\<lparr>timers := timers n @ [(delay, cb)]\<rparr>)"

text \<open>
  Modelled from the spec: \<^verbatim>\<open>MessagePump.post_message\<close> of \<^verbatim>\<open>message_pump.py\<close>, which is
  not among the source files. The spec: "Posting a message never blocks the poster; queue
  capacity is unbounded"; "strict FIFO per node".
\<close>

definition post_message :: "'s state \<Rightarrow> addr \<Rightarrow> message \<Rightarrow> 's state" where
  "post_message s self m = update_node s self (\<lambda>n. n\<lparr>message_queue := message_queue n @ [m]\<rparr>)"

text \<open>
  Calling a callback: \<^verbatim>\<open>partial(self.remove_class, "-active")()\<close> is the call
  \<^verbatim>\<open>self.remove_class("-active")\<close>.
\<close>

fun invoke :: "'s env \<Rightarrow> 's state \<Rightarrow> callback \<Rightarrow> (error + unit) \<times> 's state" where
  "invoke E s (RemoveClass node class_names) = remove_class E s node class_names"

text \<open>
  Modelled from the spec: the processing of a timer's expiry message by the message pump
  of \<^verbatim>\<open>message_pump.py\<close>, which is not among the source files. The timer is no longer
  pending and its callback is called.
\<close>

definition timer_expired ::
  "'s env \<Rightarrow> 's state \<Rightarrow> addr \<Rightarrow> real \<times> callback \<Rightarrow> (error + unit) \<times> 's state" where
  "timer_expired E s self t =
     invoke E (update_node s self (\<lambda>n. n\<lparr>timers := remove1 t (timers n)\<rparr>)) (snd t)"

text \<open>
  \<^verbatim>\<open>
  self.add_class("-active")
  self.set_timer(self.ACTIVE_EFFECT_DURATION, partial(self.remove_class, "-active"))
  \<close>
\<close>

definition start_active_affect :: "'s env \<Rightarrow> 's state \<Rightarrow> addr \<Rightarrow> (error + unit) \<times> 's state" where
  "start_active_affect E s self =
     (case add_class E s self [''-active''] of
        (Inl e, s') \<Rightarrow> (Inl e, s')
      | (Inr _, s') \<Rightarrow>
          (Inr (), set_timer s' self ACTIVE_EFFECT_DURATION (RemoveClass self [''-active''])))"

text \<open>
  \<^verbatim>\<open>
  if self.disabled or not self.display:
      return self
  self._start_active_affect()
  self.post_message(Button.Pressed(self))
  return self
  \<close>
\<close>

definition press :: "'s env \<Rightarrow> 's state \<Rightarrow> addr \<Rightarrow> (error + addr) \<times> 's state" where
  "press E s self =
     (if disabled (heap s self) \<or> \<not> display_getter s self then (Inr self, s)
      else (case start_active_affect E s self of
              (Inl e, s') \<Rightarrow> (Inl e, s')
            | (Inr _, s') \<Rightarrow> (Inr self, post_message s' self (Pressed self))))"

subsection \<open>The notions of the specification, defined on their own\<close>

text \<open>
  "Self followed by each successive parent up to the root": a list of nodes is the parent
  chain of its head when every node in it is followed by its parent and the last one has
  no parent.
\<close>

fun parent_chain :: "'s state \<Rightarrow> addr list \<Rightarrow> bool" where
  "parent_chain s [] \<longleftrightarrow> False"
| "parent_chain s [a] \<longleftrightarrow> n_parent (heap s a) = None"
| "parent_chain s (a # b # rest) \<longleftrightarrow> n_parent (heap s a) = Some b \<and> parent_chain s (b # rest)"

text \<open>
  The three parts of the resolved text style as the claim describes them, for a parent
  chain that starts at the node itself. The background: the backgrounds of the nodes that
  set one, composited from the root down to the node, starting from \<^verbatim>\<open>Color(0, 0, 0, 0)\<close>.
  The foreground: the colour of the first node of the chain (the nearest, the node itself
  included) that sets one, \<^verbatim>\<open>Color(255, 255, 255, 0)\<close> if none does. The text
  attributes: the text styles of all nodes, combined from the root down to the node.
\<close>

definition effective_background :: "('r, 's) rich \<Rightarrow> 's state \<Rightarrow> addr list \<Rightarrow> color" where
  "effective_background R s chain =
     foldl (color_add R) (Color 0 0 0 0)
       (List.map_filter (\<lambda>a. get_rule background (heap s a)) (rev chain))"

definition effective_color :: "'s state \<Rightarrow> addr list \<Rightarrow> color" where
  "effective_color s chain =
     (case find (\<lambda>a. has_rule color (heap s a)) chain of
        None \<Rightarrow> Color 255 255 255 0
      | Some a \<Rightarrow> (case get_rule color (heap s a) of Some c \<Rightarrow> c | None \<Rightarrow> Color 255 255 255 0))"

definition combined_text_style :: "('r, 's) rich \<Rightarrow> 's state \<Rightarrow> addr list \<Rightarrow> 's" where
  "combined_text_style R s chain =
     foldl (style_add R) (Style R None None)
       (map (\<lambda>a. case get_rule text_style (heap s a) of Some t \<Rightarrow> t | None \<Rightarrow> default_text_style R)
          (rev chain))"

text \<open>
  "A finite tree of nodes": the heap below a node has the shape of a finite tree when the
  children list of the tree's root holds the roots of its subtrees, in their order, and
  each subtree is the shape of the heap below its own root. In a tree no node occurs
  twice. \<open>preorder\<close> is the depth-first pre-order by recursion: a node, then the
  pre-orders of its subtrees from the first to the last.
\<close>

datatype dom_tree = DomTree (tree_node: addr) (subtrees: "dom_tree list")

fun preorder :: "dom_tree \<Rightarrow> addr list" where
  "preorder (DomTree a ts) = a # concat (map preorder ts)"

fun shape_of :: "'s state \<Rightarrow> dom_tree \<Rightarrow> bool" where
  "shape_of s (DomTree a ts) \<longleftrightarrow>
     children (heap s a) = map tree_node ts \<and> (\<forall>t \<in> set ts. shape_of s t)"

text \<open>A node and one of its children; the descendants are the transitive closure.\<close>

definition child_rel :: "'s state \<Rightarrow> (addr \<times> addr) set" where
  "child_rel s = {(p, c). c \<in> set (children (heap s p))}"

text \<open>What is left of a stack of iterators over subtrees: the measure of the walk.\<close>

fun tree_size :: "dom_tree \<Rightarrow> nat" where
  "tree_size (DomTree a ts) = Suc (Suc (sum_list (map tree_size ts)))"

definition stack_size :: "dom_tree list list \<Rightarrow> nat" where
  "stack_size stack = sum_list (map (\<lambda>it. Suc (sum_list (map tree_size it))) stack)"

section \<open>Example states\<close>

text \<open>
  A fresh node as \<^verbatim>\<open>DOMNode.__init__\<close> leaves it (no name, no id, no classes, no
  children, empty style layers) and a parameter record for the examples.
\<close>

definition fresh_node :: "string list node" where
  "fresh_node = \<lparr>n_name = None, n_id = None, n_classes = {}, children = [],
     n_css_styles = no_styles, n_inline_styles = no_styles, n_parent = None,
     disabled = False, message_queue = [], timers = []\<rparr>"

definition example_env :: "string list env" where
  "example_env = \<lparr>py_repr = (\<lambda>w. [CHR 0x27] @ w @ [CHR 0x27]),
     friendly_list = (\<lambda>ws. ''one of the valid values''),
     VALID_DISPLAY = {''block'', ''none''},
     VALID_VISIBILITY = {''visible'', ''hidden''},
     stylesheet_update = (\<lambda>app h a. n_css_styles (h a))\<rparr>"

definition detached :: "string list state" where
  "detached = \<lparr>heap = (\<lambda>a. fresh_node), active_app = None\<rparr>"

text \<open>
  A small tree: node 0 has the children 1 and 2, node 2 has the child 3; the ids are
  \<open>a\<close>, \<open>b\<close> and \<open>deep\<close>.
\<close>

definition family :: "string list state" where
  "family = \<lparr>heap = (\<lambda>a. fresh_node)
      (0 := fresh_node\<lparr>children := [1, 2]\<rparr>,
       1 := fresh_node\<lparr>n_id := Some ''a'', n_parent := Some 0\<rparr>,
       2 := fresh_node\<lparr>n_id := Some ''b'', children := [3], n_parent := Some 0\<rparr>,
       3 := fresh_node\<lparr>n_id := Some ''deep'', n_parent := Some 2\<rparr>),
     active_app = None\<rparr>"

text \<open>
  A parameter record for the colour and style operations, a chain of three styled nodes
  (3 below 2 below 0), and an application with an enabled button 1 and a disabled button 2.
\<close>

definition example_rich :: "(string, string list) rich" where
  "example_rich = \<lparr>
     color_add = (\<lambda>under over. case over of Color r g b a \<Rightarrow> if a = 1 then over else under),
     rich_color = (\<lambda>c. case c of Color r g b a \<Rightarrow> if a = 0 then ''default'' else ''rgb''),
     Style = (\<lambda>bg fg. (case bg of None \<Rightarrow> [] | Some x \<Rightarrow> [''on '' @ x])
                @ (case fg of None \<Rightarrow> [] | Some x \<Rightarrow> [x])),
     style_add = (\<lambda>a b. a @ b),
     default_text_style = []\<rparr>"

definition styled_family :: "string list state" where
  "styled_family = \<lparr>heap = (\<lambda>a. fresh_node)
      (0 := fresh_node\<lparr>children := [2],
             n_css_styles := no_styles\<lparr>background := Some (Color 10 10 10 1),
               color := Some (Color 1 2 3 1), text_style := Some [''bold'']\<rparr>\<rparr>,
       2 := fresh_node\<lparr>children := [3], n_parent := Some 0,
             n_inline_styles := no_styles\<lparr>color := Some (Color 9 9 9 1)\<rparr>\<rparr>,
       3 := fresh_node\<lparr>n_parent := Some 2,
             n_css_styles := no_styles\<lparr>text_style := Some [''italic'']\<rparr>\<rparr>),
     active_app = None\<rparr>"

definition button_state :: "string list state" where
  "button_state = \<lparr>heap = (\<lambda>a. fresh_node)
      (0 := fresh_node\<lparr>children := [1, 2]\<rparr>,
       1 := fresh_node\<lparr>n_parent := Some 0, n_classes := {''-default''}\<rparr>,
       2 := fresh_node\<lparr>n_parent := Some 0, n_classes := {''-default''}, disabled := True\<rparr>),
     active_app = Some 0\<rparr>"

text \<open>The shape of the small tree.\<close>

definition family_tree :: dom_tree where
  "family_tree = DomTree 0 [DomTree 1 [], DomTree 2 [DomTree 3 []]]"

section \<open>The id is set at most once\<close>

lemma id_setter_set:
  "n_id (heap s self) = Some cur \<Longrightarrow>
     id_setter E s self new_id =
       (Inl (ValueError (''Node '' @ [CHR 0x27] @ ''id'' @ [CHR 0x27]
          @ '' attribute may not be changed once set (current id='' @ py_repr E cur
          @ '')'')), s)"
  by (simp add: id_setter_def)

lemma id_setter_unset:
  "n_id (heap s self) = None \<Longrightarrow>
     id_setter E s self new_id = (Inr new_id, update_node s self (\<lambda>n. n\<lparr>n_id := Some new_id\<rparr>))"
  by (simp add: id_setter_def)

lemma n_id_update_node:
  "n_id (heap (update_node s a (\<lambda>n. n\<lparr>n_id := v\<rparr>)) a) = v"
  by (simp add: update_node_def)

text \<open>
  C2. On a node whose id is set, assigning the id raises the \<^verbatim>\<open>ValueError\<close> (the
  identity conflict) and leaves the whole state, hence the id, as it was; on a node
  whose id is \<open>None\<close> the assignment stores the new id, and from then on every further
  assignment raises and keeps that id.
\<close>

theorem id_setter_once:
  "(n_id (heap s self) = Some cur \<longrightarrow>
      (\<exists>msg. fst (id_setter E s self new_id) = Inl (ValueError msg))
      \<and> snd (id_setter E s self new_id) = s
      \<and> id_getter (snd (id_setter E s self new_id)) self = Some cur)
   \<and> (n_id (heap s self) = None \<longrightarrow>
      fst (id_setter E s self new_id) = Inr new_id
      \<and> id_getter (snd (id_setter E s self new_id)) self = Some new_id
      \<and> (\<exists>msg. fst (id_setter E (snd (id_setter E s self new_id)) self other)
            = Inl (ValueError msg))
      \<and> id_getter (snd (id_setter E (snd (id_setter E s self new_id)) self other)) self
            = Some new_id)"
proof (intro conjI impI)
  assume set: "n_id (heap s self) = Some cur"
  show "\<exists>msg. fst (id_setter E s self new_id) = Inl (ValueError msg)"
    by (simp add: id_setter_set [OF set])
  show "snd (id_setter E s self new_id) = s"
    by (simp add: id_setter_set [OF set])
  show "id_getter (snd (id_setter E s self new_id)) self = Some cur"
    by (simp add: id_setter_set [OF set] id_getter_def set)
next
  assume unset: "n_id (heap s self) = None"
  let ?s1 = "update_node s self (\<lambda>n. n\<lparr>n_id := Some new_id\<rparr>)"
  have first: "id_setter E s self new_id = (Inr new_id, ?s1)"
    by (rule id_setter_unset [OF unset])
  have now_set: "n_id (heap ?s1 self) = Some new_id"
    by (rule n_id_update_node)
  show "fst (id_setter E s self new_id) = Inr new_id"
    by (simp add: first)
  show "id_getter (snd (id_setter E s self new_id)) self = Some new_id"
    by (simp add: first id_getter_def now_set)
  show "\<exists>msg. fst (id_setter E (snd (id_setter E s self new_id)) self other)
          = Inl (ValueError msg)"
    by (simp add: first id_setter_set [OF now_set])
  show "id_getter (snd (id_setter E (snd (id_setter E s self new_id)) self other)) self
          = Some new_id"
    by (simp add: first id_setter_set [OF now_set] id_getter_def now_set)
qed

theorem id_setter_once_witness:
  "n_id (heap detached 0) = None
   \<and> fst (id_setter example_env detached 0 ''submit'') = Inr ''submit''
   \<and> id_getter (snd (id_setter example_env detached 0 ''submit'')) 0 = Some ''submit''
   \<and> id_getter (snd (id_setter example_env
         (snd (id_setter example_env detached 0 ''submit'')) 0 ''other'')) 0 = Some ''submit''
   \<and> n_id (heap (snd (id_setter example_env detached 0 ''submit'')) 0) = Some ''submit''
   \<and> snd (id_setter example_env (snd (id_setter example_env detached 0 ''submit'')) 0 ''other'')
       = snd (id_setter example_env detached 0 ''submit'')"
proof -
  have unset: "n_id (heap detached 0) = None"
    by (simp add: detached_def fresh_node_def)
  have isset: "n_id (heap (snd (id_setter example_env detached 0 ''submit'')) 0) = Some ''submit''"
    by (simp add: id_setter_def detached_def fresh_node_def update_node_def)
  from unset isset
    id_setter_once [of detached 0 "''x''" example_env "''submit''" "''other''"]
    id_setter_once [of "snd (id_setter example_env detached 0 ''submit'')" 0 "''submit''"
      example_env "''other''" "''x''"]
  show ?thesis by simp
qed

section \<open>\<^verbatim>\<open>get_child\<close> looks at the immediate children only\<close>

lemma get_child_loop_None:
  "get_child_loop s cs i = None \<longleftrightarrow> (\<forall>c \<in> set cs. id_getter s c \<noteq> Some i)"
  by (induction cs) auto

lemma get_child_loop_Some:
  "get_child_loop s cs i = Some c \<longleftrightarrow>
     (\<exists>pre post. cs = pre @ c # post \<and> id_getter s c = Some i
        \<and> (\<forall>x \<in> set pre. id_getter s x \<noteq> Some i))"
proof (induction cs)
  case Nil
  then show ?case by simp
next
  case (Cons a cs)
  show ?case
  proof (cases "id_getter s a = Some i")
    case True
    have "(\<exists>pre post. a # cs = pre @ c # post \<and> id_getter s c = Some i
        \<and> (\<forall>x \<in> set pre. id_getter s x \<noteq> Some i)) \<longleftrightarrow> a = c"
    proof
      assume "\<exists>pre post. a # cs = pre @ c # post \<and> id_getter s c = Some i
        \<and> (\<forall>x \<in> set pre. id_getter s x \<noteq> Some i)"
      then obtain pre post where eq: "a # cs = pre @ c # post"
        and nopre: "\<forall>x \<in> set pre. id_getter s x \<noteq> Some i" by blast
      show "a = c"
      proof (cases pre)
        case Nil
        with eq show ?thesis by simp
      next
        case (Cons p ps)
        with eq have "p = a" by simp
        with Cons nopre True show ?thesis by simp
      qed
    next
      assume "a = c"
      with True have "a # cs = [] @ c # cs \<and> id_getter s c = Some i
        \<and> (\<forall>x \<in> set []. id_getter s x \<noteq> Some i)" by simp
      then show "\<exists>pre post. a # cs = pre @ c # post \<and> id_getter s c = Some i
        \<and> (\<forall>x \<in> set pre. id_getter s x \<noteq> Some i)" by blast
    qed
    with True show ?thesis by simp
  next
    case False
    have "(\<exists>pre post. a # cs = pre @ c # post \<and> id_getter s c = Some i
        \<and> (\<forall>x \<in> set pre. id_getter s x \<noteq> Some i))
      \<longleftrightarrow> (\<exists>pre post. cs = pre @ c # post \<and> id_getter s c = Some i
        \<and> (\<forall>x \<in> set pre. id_getter s x \<noteq> Some i))" (is "?L \<longleftrightarrow> ?R")
    proof
      assume ?L
      then obtain pre post where eq: "a # cs = pre @ c # post"
        and c: "id_getter s c = Some i"
        and nopre: "\<forall>x \<in> set pre. id_getter s x \<noteq> Some i" by blast
      show ?R
      proof (cases pre)
        case Nil
        with eq c False show ?thesis by simp
      next
        case (Cons p ps)
        with eq nopre c have "cs = ps @ c # post \<and> id_getter s c = Some i
           \<and> (\<forall>x \<in> set ps. id_getter s x \<noteq> Some i)" by simp
        then show ?thesis by blast
      qed
    next
      assume ?R
      then obtain pre post where "cs = pre @ c # post" "id_getter s c = Some i"
        "\<forall>x \<in> set pre. id_getter s x \<noteq> Some i" by blast
      with False have "a # cs = (a # pre) @ c # post \<and> id_getter s c = Some i
        \<and> (\<forall>x \<in> set (a # pre). id_getter s x \<noteq> Some i)" by simp
      then show ?L by blast
    qed
    with False Cons.IH show ?thesis by simp
  qed
qed

text \<open>
  C7. \<^verbatim>\<open>get_child\<close> returns a node exactly when that node is the first entry of the
  children list whose id is the one asked for, so the result is always an immediate
  child; and when no immediate child has the id it raises \<^verbatim>\<open>NoMatchingNodesError\<close>,
  whatever ids the nodes further down have.
\<close>

theorem get_child_immediate:
  "(get_child E s self i = Inr c \<longleftrightarrow>
      (\<exists>pre post. children (heap s self) = pre @ c # post \<and> id_getter s c = Some i
         \<and> (\<forall>x \<in> set pre. id_getter s x \<noteq> Some i)))
   \<and> ((\<forall>x \<in> set (children (heap s self)). id_getter s x \<noteq> Some i) \<longrightarrow>
        get_child E s self i
          = Inl (NoMatchingNodesError (''No child found with id='' @ py_repr E i)))"
proof
  have "get_child E s self i = Inr c
          \<longleftrightarrow> get_child_loop s (children (heap s self)) i = Some c"
    by (simp add: get_child_def split: option.splits)
  then show "get_child E s self i = Inr c \<longleftrightarrow>
      (\<exists>pre post. children (heap s self) = pre @ c # post \<and> id_getter s c = Some i
         \<and> (\<forall>x \<in> set pre. id_getter s x \<noteq> Some i))"
    by (simp only: get_child_loop_Some)
next
  show "(\<forall>x \<in> set (children (heap s self)). id_getter s x \<noteq> Some i) \<longrightarrow>
        get_child E s self i
          = Inl (NoMatchingNodesError (''No child found with id='' @ py_repr E i))"
  proof
    assume "\<forall>x \<in> set (children (heap s self)). id_getter s x \<noteq> Some i"
    then have "get_child_loop s (children (heap s self)) i = None"
      by (simp only: get_child_loop_None)
    then show "get_child E s self i
          = Inl (NoMatchingNodesError (''No child found with id='' @ py_repr E i))"
      by (simp add: get_child_def)
  qed
qed

theorem get_child_immediate_witness:
  "get_child example_env family 0 ''b'' = Inr 2
   \<and> children (heap family 0) = [1, 2] \<and> children (heap family 2) = [3]
   \<and> id_getter family 3 = Some ''deep''
   \<and> get_child example_env family 0 ''deep''
       = Inl (NoMatchingNodesError (''No child found with id='' @ py_repr example_env ''deep''))"
proof -
  have kids: "children (heap family 0) = [1] @ 2 # []"
    by (simp add: family_def fresh_node_def)
  have ids: "id_getter family 1 = Some ''a''" "id_getter family 2 = Some ''b''"
    "id_getter family 3 = Some ''deep''"
    by (simp_all add: family_def fresh_node_def id_getter_def)
  have found: "\<exists>pre post. children (heap family 0) = pre @ 2 # post
      \<and> id_getter family 2 = Some ''b'' \<and> (\<forall>x \<in> set pre. id_getter family x \<noteq> Some ''b'')"
    using kids ids by (intro exI [of _ "[1]"] exI [of _ "[]"]) simp
  have none: "\<forall>x \<in> set (children (heap family 0)). id_getter family x \<noteq> Some ''deep''"
    using kids ids by simp
  have kids': "children (heap family 0) = [1, 2]" "children (heap family 2) = [3]"
    by (simp_all add: family_def fresh_node_def)
  from found none ids kids'
    get_child_immediate [of example_env family 0 "''b''" 2]
    get_child_immediate [of example_env family 0 "''deep''" 2]
  show ?thesis by blast
qed

section \<open>Frame lemmas for \<open>update_node\<close>\<close>

lemma heap_update_node_same: "heap (update_node s a f) a = f (heap s a)"
  by (simp add: update_node_def)

lemma heap_update_node_other: "b \<noteq> a \<Longrightarrow> heap (update_node s a f) b = heap s b"
  by (simp add: update_node_def)

lemma active_app_update_node: "active_app (update_node s a f) = active_app s"
  by (simp add: update_node_def)

section \<open>The boolean and enumerated style setters\<close>

lemma get_rule_assign_display: "get_rule display (assign_display v n) = Some v"
  by (simp add: get_rule_def assign_display_def)

lemma get_rule_assign_visibility: "get_rule visibility (assign_visibility v n) = Some v"
  by (simp add: get_rule_def assign_visibility_def)

lemma display_setter_bool:
  "display_setter E s self (PyBool b)
     = (Inr (), update_node s self (assign_display (if b then ''block'' else ''none'')))"
  by (simp add: display_setter_def)

lemma display_setter_valid:
  "v \<in> VALID_DISPLAY E \<Longrightarrow>
     display_setter E s self (PyStr v) = (Inr (), update_node s self (assign_display v))"
  by (simp add: display_setter_def)

lemma display_setter_invalid:
  "v \<notin> VALID_DISPLAY E \<Longrightarrow>
     display_setter E s self (PyStr v)
       = (Inl (StyleValueError (''invalid value for display (received '' @ py_repr E v
            @ '', expected '' @ friendly_list E (VALID_DISPLAY E) @ '')'')), s)"
  by (simp add: display_setter_def)

lemma visible_setter_bool:
  "visible_setter E s self (PyBool b)
     = (Inr (), update_node s self (assign_visibility (if b then ''visible'' else ''hidden'')))"
  by (simp add: visible_setter_def)

lemma visible_setter_valid:
  "v \<in> VALID_VISIBILITY E \<Longrightarrow>
     visible_setter E s self (PyStr v) = (Inr (), update_node s self (assign_visibility v))"
  by (simp add: visible_setter_def)

lemma visible_setter_invalid:
  "v \<notin> VALID_VISIBILITY E \<Longrightarrow>
     visible_setter E s self (PyStr v)
       = (Inl (StyleValueError (''invalid value for visibility (received '' @ py_repr E v
            @ '', expected '' @ friendly_list E (VALID_VISIBILITY E) @ '')'')), s)"
  by (simp add: visible_setter_def)

text \<open>
  C4. Given a boolean, the \<^verbatim>\<open>display\<close> setter returns and the \<^verbatim>\<open>display\<close> rule then
  reads \<^verbatim>\<open>"block"\<close> for \<^verbatim>\<open>True\<close> and \<^verbatim>\<open>"none"\<close> for \<^verbatim>\<open>False\<close>; given a
  string of \<^verbatim>\<open>VALID_DISPLAY\<close> it returns and the rule reads that string; given any
  other string it raises \<^verbatim>\<open>StyleValueError\<close> with a message that holds the \<^verbatim>\<open>repr\<close> of
  the offending value and \<^verbatim>\<open>friendly_list\<close> of the valid set, and the state is the one
  before the call. The \<^verbatim>\<open>visible\<close> setter does the same with \<^verbatim>\<open>"visible"\<close>,
  \<^verbatim>\<open>"hidden"\<close> and \<^verbatim>\<open>VALID_VISIBILITY\<close>.
\<close>

theorem style_setters_validate:
  "fst (display_setter E s self (PyBool b)) = Inr ()
   \<and> get_rule display (heap (snd (display_setter E s self (PyBool b))) self)
       = Some (if b then ''block'' else ''none'')
   \<and> (v \<in> VALID_DISPLAY E \<longrightarrow>
        fst (display_setter E s self (PyStr v)) = Inr ()
        \<and> get_rule display (heap (snd (display_setter E s self (PyStr v))) self) = Some v)
   \<and> (v \<notin> VALID_DISPLAY E \<longrightarrow>
        display_setter E s self (PyStr v)
          = (Inl (StyleValueError (''invalid value for display (received '' @ py_repr E v
               @ '', expected '' @ friendly_list E (VALID_DISPLAY E) @ '')'')), s))
   \<and> fst (visible_setter E s self (PyBool b)) = Inr ()
   \<and> get_rule visibility (heap (snd (visible_setter E s self (PyBool b))) self)
       = Some (if b then ''visible'' else ''hidden'')
   \<and> (v \<in> VALID_VISIBILITY E \<longrightarrow>
        fst (visible_setter E s self (PyStr v)) = Inr ()
        \<and> get_rule visibility (heap (snd (visible_setter E s self (PyStr v))) self) = Some v)
   \<and> (v \<notin> VALID_VISIBILITY E \<longrightarrow>
        visible_setter E s self (PyStr v)
          = (Inl (StyleValueError (''invalid value for visibility (received '' @ py_repr E v
               @ '', expected '' @ friendly_list E (VALID_VISIBILITY E) @ '')'')), s))"
proof (intro conjI impI)
  show "fst (display_setter E s self (PyBool b)) = Inr ()"
    by (simp add: display_setter_bool)
  show "get_rule display (heap (snd (display_setter E s self (PyBool b))) self)
       = Some (if b then ''block'' else ''none'')"
    by (simp only: display_setter_bool snd_conv heap_update_node_same get_rule_assign_display)
  show "fst (visible_setter E s self (PyBool b)) = Inr ()"
    by (simp add: visible_setter_bool)
  show "get_rule visibility (heap (snd (visible_setter E s self (PyBool b))) self)
       = Some (if b then ''visible'' else ''hidden'')"
    by (simp only: visible_setter_bool snd_conv heap_update_node_same get_rule_assign_visibility)
next
  assume ok: "v \<in> VALID_DISPLAY E"
  show "fst (display_setter E s self (PyStr v)) = Inr ()"
    by (simp add: display_setter_valid [OF ok])
  show "get_rule display (heap (snd (display_setter E s self (PyStr v))) self) = Some v"
    by (simp only: display_setter_valid [OF ok] snd_conv heap_update_node_same
        get_rule_assign_display)
next
  assume "v \<notin> VALID_DISPLAY E"
  then show "display_setter E s self (PyStr v)
          = (Inl (StyleValueError (''invalid value for display (received '' @ py_repr E v
               @ '', expected '' @ friendly_list E (VALID_DISPLAY E) @ '')'')), s)"
    by (rule display_setter_invalid)
next
  assume ok: "v \<in> VALID_VISIBILITY E"
  show "fst (visible_setter E s self (PyStr v)) = Inr ()"
    by (simp add: visible_setter_valid [OF ok])
  show "get_rule visibility (heap (snd (visible_setter E s self (PyStr v))) self) = Some v"
    by (simp only: visible_setter_valid [OF ok] snd_conv heap_update_node_same
        get_rule_assign_visibility)
next
  assume "v \<notin> VALID_VISIBILITY E"
  then show "visible_setter E s self (PyStr v)
          = (Inl (StyleValueError (''invalid value for visibility (received '' @ py_repr E v
               @ '', expected '' @ friendly_list E (VALID_VISIBILITY E) @ '')'')), s)"
    by (rule visible_setter_invalid)
qed

theorem style_setters_validate_witness:
  "''none'' \<in> VALID_DISPLAY example_env \<and> ''none'' \<notin> VALID_VISIBILITY example_env
   \<and> get_rule display (heap (snd (display_setter example_env detached 0 (PyStr ''none''))) 0)
       = Some ''none''
   \<and> visible_setter example_env detached 0 (PyStr ''none'')
       = (Inl (StyleValueError (''invalid value for visibility (received ''
            @ py_repr example_env ''none'' @ '', expected ''
            @ friendly_list example_env (VALID_VISIBILITY example_env) @ '')'')), detached)
   \<and> ''hidden'' \<notin> VALID_DISPLAY example_env \<and> ''hidden'' \<in> VALID_VISIBILITY example_env
   \<and> get_rule visibility (heap (snd (visible_setter example_env detached 0 (PyStr ''hidden''))) 0)
       = Some ''hidden''
   \<and> display_setter example_env detached 0 (PyStr ''hidden'')
       = (Inl (StyleValueError (''invalid value for display (received ''
            @ py_repr example_env ''hidden'' @ '', expected ''
            @ friendly_list example_env (VALID_DISPLAY example_env) @ '')'')), detached)"
proof -
  have a: "''none'' \<in> VALID_DISPLAY example_env" "''none'' \<notin> VALID_VISIBILITY example_env"
    "''hidden'' \<notin> VALID_DISPLAY example_env" "''hidden'' \<in> VALID_VISIBILITY example_env"
    by (simp_all add: example_env_def)
  from a style_setters_validate [of example_env detached 0 True "''none''"]
    style_setters_validate [of example_env detached 0 True "''hidden''"]
  show ?thesis by blast
qed

section \<open>Class mutation\<close>

lemma update_and_refresh_fst: "fst (except_LookupError (update_and_refresh E s self)) = Inr ()"
  by (simp add: update_and_refresh_def app_def split: option.splits)

lemma update_and_refresh_classes:
  "n_classes (heap (snd (except_LookupError (update_and_refresh E s self))) a)
     = n_classes (heap s a)"
  by (simp add: update_and_refresh_def app_def refresh_def Stylesheet_update_def
      split: option.splits)

lemma update_and_refresh_detached:
  "active_app s = None \<Longrightarrow> except_LookupError (update_and_refresh E s self) = (Inr (), s)"
  by (simp add: update_and_refresh_def app_def)

lemma classes_add_class: "classes (snd (add_class E s self ns)) self = classes s self \<union> set ns"
  by (simp add: add_class_def classes_def update_and_refresh_classes heap_update_node_same)

lemma classes_remove_class: "classes (snd (remove_class E s self ns)) self = classes s self - set ns"
  by (simp add: remove_class_def classes_def update_and_refresh_classes heap_update_node_same)

lemma classes_toggle_class:
  "classes (snd (toggle_class E s self ns)) self = sym_diff (classes s self) (set ns)"
  by (simp add: toggle_class_def classes_def update_and_refresh_classes heap_update_node_same)

text \<open>
  C5. For every node and every list of names, the node's class set after \<^verbatim>\<open>add_class\<close>,
  \<^verbatim>\<open>remove_class\<close> and \<^verbatim>\<open>toggle_class\<close> is the union, the difference and the symmetric
  difference of the old set with the names. With no application context attached the call
  returns and the state after it is exactly the state after the class mutation: the
  recomputation and the repaint are skipped and nothing is raised.
\<close>

theorem class_mutation_succeeds:
  "classes (snd (add_class E s self ns)) self = classes s self \<union> set ns
   \<and> classes (snd (remove_class E s self ns)) self = classes s self - set ns
   \<and> classes (snd (toggle_class E s self ns)) self = sym_diff (classes s self) (set ns)
   \<and> (active_app s = None \<longrightarrow>
        add_class E s self ns
          = (Inr (), update_node s self (\<lambda>n. n\<lparr>n_classes := n_classes n \<union> set ns\<rparr>))
        \<and> remove_class E s self ns
          = (Inr (), update_node s self (\<lambda>n. n\<lparr>n_classes := n_classes n - set ns\<rparr>))
        \<and> toggle_class E s self ns
          = (Inr (), update_node s self
               (\<lambda>n. n\<lparr>n_classes := sym_diff (n_classes n) (set ns)\<rparr>)))"
proof (intro conjI impI)
  show "classes (snd (add_class E s self ns)) self = classes s self \<union> set ns"
    by (rule classes_add_class)
  show "classes (snd (remove_class E s self ns)) self = classes s self - set ns"
    by (rule classes_remove_class)
  show "classes (snd (toggle_class E s self ns)) self = sym_diff (classes s self) (set ns)"
    by (rule classes_toggle_class)
next
  assume none: "active_app s = None"
  show "add_class E s self ns
          = (Inr (), update_node s self (\<lambda>n. n\<lparr>n_classes := n_classes n \<union> set ns\<rparr>))"
    by (simp add: add_class_def update_and_refresh_detached active_app_update_node none)
  show "remove_class E s self ns
          = (Inr (), update_node s self (\<lambda>n. n\<lparr>n_classes := n_classes n - set ns\<rparr>))"
    by (simp add: remove_class_def update_and_refresh_detached active_app_update_node none)
  show "toggle_class E s self ns
          = (Inr (), update_node s self
               (\<lambda>n. n\<lparr>n_classes := sym_diff (n_classes n) (set ns)\<rparr>))"
    by (simp add: toggle_class_def update_and_refresh_detached active_app_update_node none)
qed

theorem class_mutation_succeeds_witness:
  "active_app detached = None
   \<and> add_class example_env detached 0 [''a'', ''b'']
       = (Inr (), update_node detached 0 (\<lambda>n. n\<lparr>n_classes := n_classes n \<union> set [''a'', ''b'']\<rparr>))
   \<and> classes (snd (add_class example_env detached 0 [''a'', ''b''])) 0 = {''a'', ''b''}"
proof -
  have d: "active_app detached = None" by (simp add: detached_def)
  have c: "classes detached 0 = {}" by (simp add: detached_def classes_def fresh_node_def)
  note t = class_mutation_succeeds [of example_env detached 0 "[''a'', ''b'']"]
  from t have "classes (snd (add_class example_env detached 0 [''a'', ''b''])) 0
      = classes detached 0 \<union> set [''a'', ''b'']"
    by blast
  with c have now: "classes (snd (add_class example_env detached 0 [''a'', ''b''])) 0
      = {''a'', ''b''}"
    by simp
  from t d have "add_class example_env detached 0 [''a'', ''b'']
       = (Inr (), update_node detached 0 (\<lambda>n. n\<lparr>n_classes := n_classes n \<union> set [''a'', ''b'']\<rparr>))"
    by blast
  with d now show ?thesis by blast
qed

text \<open>
  C6. Calling \<^verbatim>\<open>toggle_class\<close> twice in a row with the same names gives the node the
  class set it had before the first call.
\<close>

theorem toggle_class_self_inverse:
  "classes (snd (toggle_class E (snd (toggle_class E s self ns)) self ns)) self = classes s self"
proof -
  have "sym_diff (sym_diff (classes s self) (set ns)) (set ns) = classes s self"
    by auto
  then show ?thesis by (simp only: classes_toggle_class)
qed

section \<open>Adding children\<close>

text \<open>
  C1. The claim is that \<^verbatim>\<open>add_child\<close> and \<^verbatim>\<open>add_children\<close> both append the child and
  set its parent pointer. \<^verbatim>\<open>add_child\<close> does; \<^verbatim>\<open>add_children\<close> appends the child (and,
  for a keyword argument, sets its id) but never calls \<^verbatim>\<open>set_parent\<close>. On two fresh
  nodes 0 and 1: after \<^verbatim>\<open>add_children\<close> node 1 is a child of node 0 and its parent is
  still \<open>None\<close>, for a positional and for a keyword argument, while after \<^verbatim>\<open>add_child\<close>
  its parent is node 0.
\<close>

theorem add_children_leaves_parent_unset:
  "children (heap (snd (add_children example_env detached 0 [1] [])) 0) = [1]
   \<and> n_parent (heap (snd (add_children example_env detached 0 [1] [])) 1) = None
   \<and> fst (add_children example_env detached 0 [] [(''x'', 1)]) = Inr ()
   \<and> children (heap (snd (add_children example_env detached 0 [] [(''x'', 1)])) 0) = [1]
   \<and> n_id (heap (snd (add_children example_env detached 0 [] [(''x'', 1)])) 1) = Some ''x''
   \<and> n_parent (heap (snd (add_children example_env detached 0 [] [(''x'', 1)])) 1) = None
   \<and> children (heap (add_child detached 0 1) 0) = [1]
   \<and> n_parent (heap (add_child detached 0 1) 1) = Some 0"
  by (simp add: add_children_def add_child_def NodeList_append_def set_parent_def
      id_setter_def update_node_def detached_def fresh_node_def)

section \<open>Ancestors and the path from the root\<close>

lemma ancestors_loop_chain:
  "parent_chain s (a # rest) \<Longrightarrow> ancestors_loop s a acc = Some (acc @ rest)"
proof (induction rest arbitrary: a acc)
  case Nil
  then have "n_parent (heap s a) = None" by simp
  then show ?case by (subst ancestors_loop.simps) simp
next
  case (Cons b rest)
  from Cons.prems have p: "n_parent (heap s a) = Some b" and c: "parent_chain s (b # rest)"
    by simp_all
  from c have "ancestors_loop s b (acc @ [b]) = Some ((acc @ [b]) @ rest)"
    by (rule Cons.IH)
  with p show ?case by (subst ancestors_loop.simps) simp
qed

lemma css_path_nodes_loop_chain:
  "parent_chain s (a # rest) \<Longrightarrow> css_path_nodes_loop s a acc = Some (rev (acc @ rest))"
proof (induction rest arbitrary: a acc)
  case Nil
  then have "n_parent (heap s a) = None" by simp
  then show ?case by (subst css_path_nodes_loop.simps) simp
next
  case (Cons b rest)
  from Cons.prems have p: "n_parent (heap s a) = Some b" and c: "parent_chain s (b # rest)"
    by simp_all
  from c have "css_path_nodes_loop s b (acc @ [b]) = Some (rev ((acc @ [b]) @ rest))"
    by (rule Cons.IH)
  with p show ?case by (subst css_path_nodes_loop.simps) simp
qed

lemma ancestors_chain: "parent_chain s (self # rest) \<Longrightarrow> ancestors s self = Some (self # rest)"
  by (simp add: ancestors_def ancestors_loop_chain)

text \<open>
  C8. For a node whose parents form a finite chain up to a root, \<^verbatim>\<open>ancestors\<close> returns
  that chain, the node itself first and then each successive parent up to the root, and
  \<^verbatim>\<open>css_path_nodes\<close> returns the reverse of it.
\<close>

theorem css_path_nodes_reverses_ancestors:
  assumes "parent_chain s (self # rest)"
  shows "ancestors s self = Some (self # rest)
    \<and> css_path_nodes s self = Some (rev (self # rest))
    \<and> css_path_nodes s self = map_option rev (ancestors s self)"
proof -
  from assms have a: "ancestors s self = Some (self # rest)"
    by (rule ancestors_chain)
  from assms have c: "css_path_nodes s self = Some (rev (self # rest))"
    by (simp add: css_path_nodes_def css_path_nodes_loop_chain)
  from a c show ?thesis by simp
qed

theorem css_path_nodes_reverses_ancestors_witness:
  "ancestors family 3 = Some [3, 2, 0] \<and> css_path_nodes family 3 = Some [0, 2, 3]"
proof -
  have "parent_chain family (3 # [2, 0])"
    by (simp add: family_def fresh_node_def)
  from css_path_nodes_reverses_ancestors [OF this] show ?thesis by simp
qed

section \<open>The resolved text style\<close>

lemma find_snoc:
  "find P (xs @ [x]) = (case find P xs of Some y \<Rightarrow> Some y | None \<Rightarrow> if P x then Some x else None)"
  by (induction xs) auto

lemma rich_text_style_loop_parts:
  "rich_text_style_loop R s xs (bg, fg, st) =
     (foldl (color_add R) bg (List.map_filter (\<lambda>a. get_rule background (heap s a)) xs),
      (case find (\<lambda>a. has_rule color (heap s a)) (rev xs) of
         None \<Rightarrow> fg
       | Some a \<Rightarrow> (case get_rule color (heap s a) of Some c \<Rightarrow> c | None \<Rightarrow> Color 255 255 255 0)),
      foldl (style_add R) st
        (map (\<lambda>a. case get_rule text_style (heap s a) of Some t \<Rightarrow> t | None \<Rightarrow> default_text_style R) xs))"
proof (induction xs arbitrary: bg fg st)
  case Nil
  show ?case by simp
next
  case (Cons x xs)
  show ?case
  proof (cases "get_rule color (heap s x)")
    case None
    then show ?thesis
      by (simp add: Cons.IH find_snoc has_rule_def split: option.splits)
  next
    case (Some c)
    then show ?thesis
      by (simp add: Cons.IH find_snoc has_rule_def split: option.splits)
  qed
qed

text \<open>
  C9. For a node with a finite parent chain, \<^verbatim>\<open>rich_text_style\<close> returns the style made
  of: as background, the composite of the backgrounds of the nodes that set one, taken in
  root-to-self order; as foreground, the colour of the nearest node, the node itself
  included, that sets one; combined with the text styles of all nodes of the chain, added
  up in root-to-self order.
\<close>

theorem rich_text_style_resolved:
  assumes "parent_chain s (self # rest)"
  shows "rich_text_style R s self =
     Some (style_add R
       (Style R (Some (rich_color R (effective_background R s (self # rest))))
                (Some (rich_color R (effective_color s (self # rest)))))
       (combined_text_style R s (self # rest)))"
proof -
  from assms have a: "ancestors s self = Some (self # rest)"
    by (rule ancestors_chain)
  have loop: "rich_text_style_loop R s (rev (self # rest))
        (Color 0 0 0 0, Color 255 255 255 0, Style R None None)
      = (effective_background R s (self # rest), effective_color s (self # rest),
         combined_text_style R s (self # rest))"
    unfolding rich_text_style_loop_parts effective_background_def effective_color_def
      combined_text_style_def rev_rev_ident
    by simp
  show ?thesis
    by (simp only: rich_text_style_def a loop option.case prod.case)
qed

theorem rich_text_style_resolved_witness:
  "rich_text_style example_rich styled_family 3
     = Some [''on rgb'', ''rgb'', ''bold'', ''italic'']
   \<and> effective_background example_rich styled_family [3, 2, 0] = Color 10 10 10 1
   \<and> effective_color styled_family [3, 2, 0] = Color 9 9 9 1
   \<and> combined_text_style example_rich styled_family [3, 2, 0] = [''bold'', ''italic'']"
proof -
  have chain: "parent_chain styled_family (3 # [2, 0])"
    by (simp add: styled_family_def fresh_node_def)
  have bg: "effective_background example_rich styled_family [3, 2, 0] = Color 10 10 10 1"
    by (simp add: effective_background_def styled_family_def fresh_node_def no_styles_def
        get_rule_def example_rich_def)
  have fg: "effective_color styled_family [3, 2, 0] = Color 9 9 9 1"
    by (simp add: effective_color_def styled_family_def fresh_node_def no_styles_def
        get_rule_def has_rule_def)
  have ts: "combined_text_style example_rich styled_family [3, 2, 0] = [''bold'', ''italic'']"
    by (simp add: combined_text_style_def styled_family_def fresh_node_def no_styles_def
        get_rule_def example_rich_def)
  from rich_text_style_resolved [OF chain, of example_rich] bg fg ts
  show ?thesis by (simp add: example_rich_def)
qed

section \<open>Pressing a button\<close>

lemma update_and_refresh_timers:
  "timers (heap (snd (except_LookupError (update_and_refresh E s self))) a) = timers (heap s a)"
  by (simp add: update_and_refresh_def app_def refresh_def Stylesheet_update_def
      split: option.splits)

lemma update_and_refresh_queue:
  "message_queue (heap (snd (except_LookupError (update_and_refresh E s self))) a)
     = message_queue (heap s a)"
  by (simp add: update_and_refresh_def app_def refresh_def Stylesheet_update_def
      split: option.splits)

lemma add_class_returns: "add_class E s self ns = (Inr (), snd (add_class E s self ns))"
proof -
  have "fst (add_class E s self ns) = Inr ()"
    by (simp add: add_class_def update_and_refresh_fst)
  then show ?thesis by (simp add: prod_eq_iff)
qed

lemma timers_add_class: "timers (heap (snd (add_class E s self ns)) self) = timers (heap s self)"
  by (simp add: add_class_def update_and_refresh_timers heap_update_node_same)

lemma queue_add_class:
  "message_queue (heap (snd (add_class E s self ns)) self) = message_queue (heap s self)"
  by (simp add: add_class_def update_and_refresh_queue heap_update_node_same)

lemma press_skipped:
  "disabled (heap s self) \<or> \<not> display_getter s self \<Longrightarrow> press E s self = (Inr self, s)"
  by (simp add: press_def)

lemma press_enabled:
  assumes "\<not> disabled (heap s self)" and "display_getter s self"
  shows "press E s self =
     (Inr self,
      post_message
        (set_timer (snd (add_class E s self [''-active''])) self ACTIVE_EFFECT_DURATION
           (RemoveClass self [''-active'']))
        self (Pressed self))"
proof -
  have "start_active_affect E s self =
      (Inr (), set_timer (snd (add_class E s self [''-active''])) self ACTIVE_EFFECT_DURATION
           (RemoveClass self [''-active'']))"
    by (subst start_active_affect_def, subst add_class_returns) simp
  with assms show ?thesis by (simp add: press_def)
qed

lemma classes_post_message: "classes (post_message s a m) b = classes s b"
  by (simp add: classes_def post_message_def update_node_def)

lemma classes_set_timer: "classes (set_timer s a d cb) b = classes s b"
  by (simp add: classes_def set_timer_def update_node_def)

lemma classes_timer_expired:
  "classes (snd (timer_expired E s self (d, RemoveClass self ns))) self = classes s self - set ns"
proof -
  have "classes (update_node s self (\<lambda>n. n\<lparr>timers := remove1 (d, RemoveClass self ns) (timers n)\<rparr>)) self
      = classes s self"
    by (simp add: classes_def update_node_def)
  then show ?thesis
    by (simp add: timer_expired_def classes_remove_class)
qed

text \<open>
  C10. On an enabled, displayed button \<^verbatim>\<open>press\<close> returns the button, adds \<^verbatim>\<open>-active\<close>
  to its classes, appends to its timers one timer with the delay
  \<^verbatim>\<open>ACTIVE_EFFECT_DURATION\<close>, which is 0.3, and the callback that removes \<^verbatim>\<open>-active\<close>, and
  posts \<^verbatim>\<open>Pressed\<close>; so the class is there right after the press, and after that timer has
  expired and its callback has run it is gone and the other classes are as before. On a
  disabled or non-displayed button \<^verbatim>\<open>press\<close> returns the button and the state is
  unchanged.
\<close>

theorem press_active_effect:
  "(\<not> disabled (heap s self) \<and> display_getter s self \<longrightarrow>
      fst (press E s self) = Inr self
      \<and> classes (snd (press E s self)) self = classes s self \<union> {''-active''}
      \<and> ''-active'' \<in> classes (snd (press E s self)) self
      \<and> timers (heap (snd (press E s self)) self)
          = timers (heap s self) @ [(ACTIVE_EFFECT_DURATION, RemoveClass self [''-active''])]
      \<and> ACTIVE_EFFECT_DURATION = 3 / 10
      \<and> message_queue (heap (snd (press E s self)) self)
          = message_queue (heap s self) @ [Pressed self]
      \<and> classes (snd (timer_expired E (snd (press E s self)) self
            (ACTIVE_EFFECT_DURATION, RemoveClass self [''-active'']))) self
          = classes s self - {''-active''}
      \<and> ''-active'' \<notin> classes (snd (timer_expired E (snd (press E s self)) self
            (ACTIVE_EFFECT_DURATION, RemoveClass self [''-active'']))) self)
   \<and> (disabled (heap s self) \<or> \<not> display_getter s self \<longrightarrow> press E s self = (Inr self, s))"
proof (intro conjI impI)
  assume "disabled (heap s self) \<or> \<not> display_getter s self"
  then show "press E s self = (Inr self, s)" by (rule press_skipped)
next
  assume en: "\<not> disabled (heap s self) \<and> display_getter s self"
  let ?s1 = "snd (add_class E s self [''-active''])"
  let ?t = "(ACTIVE_EFFECT_DURATION, RemoveClass self [''-active''])"
  from en have p: "press E s self =
     (Inr self, post_message (set_timer ?s1 self ACTIVE_EFFECT_DURATION
           (RemoveClass self [''-active''])) self (Pressed self))"
    by (simp add: press_enabled)
  show "fst (press E s self) = Inr self" by (simp add: p)
  show cls: "classes (snd (press E s self)) self = classes s self \<union> {''-active''}"
    by (simp add: p classes_post_message classes_set_timer classes_add_class)
  then show "''-active'' \<in> classes (snd (press E s self)) self" by simp
  show "timers (heap (snd (press E s self)) self) = timers (heap s self) @ [?t]"
    by (simp add: p post_message_def set_timer_def heap_update_node_same timers_add_class)
  show "ACTIVE_EFFECT_DURATION = 3 / 10" by (simp add: ACTIVE_EFFECT_DURATION_def)
  show "message_queue (heap (snd (press E s self)) self)
          = message_queue (heap s self) @ [Pressed self]"
    by (simp add: p post_message_def set_timer_def heap_update_node_same queue_add_class)
  show gone: "classes (snd (timer_expired E (snd (press E s self)) self ?t)) self
          = classes s self - {''-active''}"
    by (simp only: classes_timer_expired cls) auto
  then show "''-active'' \<notin> classes (snd (timer_expired E (snd (press E s self)) self ?t)) self"
    by simp
qed

theorem press_active_effect_witness:
  "\<not> disabled (heap button_state 1) \<and> display_getter button_state 1
   \<and> classes (snd (press example_env button_state 1)) 1 = {''-default'', ''-active''}
   \<and> timers (heap (snd (press example_env button_state 1)) 1)
       = [(3 / 10, RemoveClass 1 [''-active''])]
   \<and> message_queue (heap (snd (press example_env button_state 1)) 1) = [Pressed 1]
   \<and> classes (snd (timer_expired example_env (snd (press example_env button_state 1)) 1
         (ACTIVE_EFFECT_DURATION, RemoveClass 1 [''-active'']))) 1 = {''-default''}
   \<and> disabled (heap button_state 2)
   \<and> press example_env button_state 2 = (Inr 2, button_state)"
proof -
  have en: "\<not> disabled (heap button_state 1)" "display_getter button_state 1"
    by (simp_all add: button_state_def fresh_node_def display_getter_def get_rule_def
        no_styles_def)
  have dis: "disabled (heap button_state 2)"
    by (simp add: button_state_def fresh_node_def)
  have before: "classes button_state 1 = {''-default''}" "timers (heap button_state 1) = []"
    "message_queue (heap button_state 1) = []"
    by (simp_all add: button_state_def fresh_node_def classes_def)
  note t1 = press_active_effect [of button_state 1 example_env]
  note t2 = press_active_effect [of button_state 2 example_env]
  from t1 en have "classes (snd (press example_env button_state 1)) 1
      = classes button_state 1 \<union> {''-active''}" by blast
  with before have a: "classes (snd (press example_env button_state 1)) 1
      = {''-default'', ''-active''}" by auto
  from t1 en have "timers (heap (snd (press example_env button_state 1)) 1)
      = timers (heap button_state 1) @ [(ACTIVE_EFFECT_DURATION, RemoveClass 1 [''-active''])]"
    by blast
  with before have b: "timers (heap (snd (press example_env button_state 1)) 1)
       = [(3 / 10, RemoveClass 1 [''-active''])]"
    by (simp add: ACTIVE_EFFECT_DURATION_def)
  from t1 en have "message_queue (heap (snd (press example_env button_state 1)) 1)
      = message_queue (heap button_state 1) @ [Pressed 1]" by blast
  with before have c: "message_queue (heap (snd (press example_env button_state 1)) 1)
      = [Pressed 1]" by simp
  from t1 en have "classes (snd (timer_expired example_env
         (snd (press example_env button_state 1)) 1
         (ACTIVE_EFFECT_DURATION, RemoveClass 1 [''-active'']))) 1
       = classes button_state 1 - {''-active''}" by blast
  with before have d: "classes (snd (timer_expired example_env
         (snd (press example_env button_state 1)) 1
         (ACTIVE_EFFECT_DURATION, RemoveClass 1 [''-active'']))) 1 = {''-default''}"
    by simp
  from t2 dis have e: "press example_env button_state 2 = (Inr 2, button_state)" by blast
  from en dis a b c d e show ?thesis by blast
qed

section \<open>The walk over the children\<close>

lemma tree_node_in_preorder: "tree_node t \<in> set (preorder t)"
  by (cases t) simp

lemma hd_preorder: "hd (preorder t) = tree_node t"
  by (cases t) simp

lemma walk_children_loop_forest:
  assumes "\<forall>it \<in> set stack. \<forall>t \<in> set it. shape_of s t"
  shows "walk_children_loop s (map (map tree_node) stack) yielded
    = Some (yielded @ concat (map (\<lambda>it. concat (map preorder it)) stack))"
  using assms
proof (induction "stack_size stack" arbitrary: stack yielded rule: less_induct)
  case less
  show ?case
  proof (cases stack)
    case Nil
    then show ?thesis by (subst walk_children_loop.simps) simp
  next
    case (Cons it below)
    show ?thesis
    proof (cases it)
      case Nil
      have smaller: "stack_size below < stack_size stack"
        by (simp add: Cons stack_size_def)
      from less.prems Cons have "\<forall>it \<in> set below. \<forall>t \<in> set it. shape_of s t"
        by simp
      with smaller have "walk_children_loop s (map (map tree_node) below) yielded
          = Some (yielded @ concat (map (\<lambda>it. concat (map preorder it)) below))"
        by (rule less.hyps)
      then show ?thesis
        by (subst walk_children_loop.simps) (simp add: Cons Nil)
    next
      case inner: (Cons t rest)
      obtain a ts where t: "t = DomTree a ts" by (cases t)
      from less.prems Cons inner t have kids: "children (heap s a) = map tree_node ts"
        and sub: "\<forall>u \<in> set ts. shape_of s u"
        and others: "\<forall>u \<in> set rest. shape_of s u"
        and lower: "\<forall>it \<in> set below. \<forall>u \<in> set it. shape_of s u"
        by simp_all
      show ?thesis
      proof (cases "ts = []")
        case True
        have smaller: "stack_size (rest # below) < stack_size stack"
          by (simp add: Cons inner t stack_size_def)
        from others lower have "\<forall>it \<in> set (rest # below). \<forall>u \<in> set it. shape_of s u"
          by simp
        with smaller have "walk_children_loop s (map (map tree_node) (rest # below))
            (yielded @ [a])
          = Some ((yielded @ [a]) @ concat (map (\<lambda>it. concat (map preorder it)) (rest # below)))"
          by (rule less.hyps)
        then show ?thesis
          by (subst walk_children_loop.simps) (simp add: Cons inner t kids True)
      next
        case False
        have smaller: "stack_size (ts # rest # below) < stack_size stack"
          by (simp add: Cons inner t stack_size_def)
        from sub others lower
        have "\<forall>it \<in> set (ts # rest # below). \<forall>u \<in> set it. shape_of s u"
          by simp
        with smaller have "walk_children_loop s (map (map tree_node) (ts # rest # below))
            (yielded @ [a])
          = Some ((yielded @ [a])
              @ concat (map (\<lambda>it. concat (map preorder it)) (ts # rest # below)))"
          by (rule less.hyps)
        then show ?thesis
          by (subst walk_children_loop.simps) (simp add: Cons inner t kids False)
      qed
    qed
  qed
qed

lemma walk_children_shape:
  assumes "shape_of s t"
  shows "walk_children s (tree_node t) with_self
    = Some ((if with_self then [tree_node t] else []) @ concat (map preorder (subtrees t)))"
proof -
  obtain a ts where t: "t = DomTree a ts" by (cases t)
  from assms t have kids: "children (heap s a) = map tree_node ts"
    and sub: "\<forall>it \<in> set [ts]. \<forall>u \<in> set it. shape_of s u"
    by simp_all
  from walk_children_loop_forest [OF sub, of "if with_self then [a] else []"]
  show ?thesis by (simp add: walk_children_def t kids)
qed

lemma walk_children_with_self:
  assumes "shape_of s t"
  shows "walk_children s (tree_node t) True = Some (preorder t)"
proof -
  have "preorder t = [tree_node t] @ concat (map preorder (subtrees t))"
    by (cases t) simp
  with walk_children_shape [OF assms, of True] show ?thesis by simp
qed

lemma children_in_preorder:
  "shape_of s t \<Longrightarrow> x \<in> set (preorder t) \<Longrightarrow> set (children (heap s x)) \<subseteq> set (preorder t)"
proof (induction t)
  case (DomTree a ts)
  from DomTree.prems(1) have kids: "children (heap s a) = map tree_node ts"
    and sub: "\<forall>u \<in> set ts. shape_of s u" by simp_all
  show ?case
  proof (cases "x = a")
    case True
    have "tree_node u \<in> set (preorder (DomTree a ts))" if "u \<in> set ts" for u
      using that tree_node_in_preorder [of u] by auto
    with True kids show ?thesis by auto
  next
    case False
    with DomTree.prems(2) obtain u where u: "u \<in> set ts" and x: "x \<in> set (preorder u)"
      by auto
    from u sub have "shape_of s u" by simp
    with u x have "set (children (heap s x)) \<subseteq> set (preorder u)"
      by (simp add: DomTree.IH)
    with u show ?thesis by auto
  qed
qed

lemma descendants_in_preorder:
  assumes "shape_of s t" and "(tree_node t, d) \<in> (child_rel s)\<^sup>*"
  shows "d \<in> set (preorder t)"
  using assms(2)
proof (induction rule: rtrancl_induct)
  case base
  show ?case by (rule tree_node_in_preorder)
next
  case (step y z)
  from step.hyps(2) have "z \<in> set (children (heap s y))"
    by (simp add: child_rel_def)
  with children_in_preorder [OF assms(1) step.IH] show ?case by auto
qed

lemma preorder_descendants:
  "shape_of s t \<Longrightarrow> d \<in> set (preorder t) \<Longrightarrow> (tree_node t, d) \<in> (child_rel s)\<^sup>*"
proof (induction t)
  case (DomTree a ts)
  from DomTree.prems(1) have kids: "children (heap s a) = map tree_node ts"
    and sub: "\<forall>u \<in> set ts. shape_of s u" by simp_all
  show ?case
  proof (cases "d = a")
    case True
    then show ?thesis by simp
  next
    case False
    with DomTree.prems(2) obtain u where u: "u \<in> set ts" and d: "d \<in> set (preorder u)"
      by auto
    from u sub have "shape_of s u" by simp
    with u d have below: "(tree_node u, d) \<in> (child_rel s)\<^sup>*"
      by (simp add: DomTree.IH)
    from u kids have "(a, tree_node u) \<in> child_rel s"
      by (simp add: child_rel_def)
    with below show ?thesis by (simp add: converse_rtrancl_into_rtrancl)
  qed
qed

lemma subtree_segment:
  "shape_of s t \<Longrightarrow> x \<in> set (preorder t) \<Longrightarrow>
     \<exists>u pre post. shape_of s u \<and> tree_node u = x \<and> preorder t = pre @ preorder u @ post"
proof (induction t)
  case (DomTree a ts)
  from DomTree.prems(1) have sub: "\<forall>u \<in> set ts. shape_of s u" by simp
  show ?case
  proof (cases "x = a")
    case True
    with DomTree.prems(1)
    have "shape_of s (DomTree a ts) \<and> tree_node (DomTree a ts) = x
        \<and> preorder (DomTree a ts) = [] @ preorder (DomTree a ts) @ []"
      by simp
    then show ?thesis by blast
  next
    case False
    with DomTree.prems(2) obtain v where v: "v \<in> set ts" and x: "x \<in> set (preorder v)"
      by auto
    from v sub have "shape_of s v" by simp
    with v x obtain u pre post where u: "shape_of s u" "tree_node u = x"
      and seg: "preorder v = pre @ preorder u @ post"
      using DomTree.IH by blast
    from v obtain ts1 ts2 where "ts = ts1 @ v # ts2"
      by (auto simp: in_set_conv_decomp)
    with seg have "preorder (DomTree a ts)
        = (a # concat (map preorder ts1) @ pre) @ preorder u
          @ (post @ concat (map preorder ts2))"
      by simp
    with u show ?thesis by blast
  qed
qed

lemma proper_descendants_below:
  assumes "shape_of s u" and "(tree_node u, d) \<in> (child_rel s)\<^sup>+"
  shows "d \<in> set (concat (map preorder (subtrees u)))"
proof -
  obtain a ts where u: "u = DomTree a ts" by (cases u)
  from assms(1) u have kids: "children (heap s a) = map tree_node ts"
    and sub: "\<forall>v \<in> set ts. shape_of s v" by simp_all
  from assms(2) u obtain c where c: "(a, c) \<in> child_rel s" and d: "(c, d) \<in> (child_rel s)\<^sup>*"
    by (auto dest: tranclD)
  from c kids obtain v where v: "v \<in> set ts" and cv: "c = tree_node v"
    by (auto simp: child_rel_def)
  from v sub have "shape_of s v" by simp
  with d cv have "d \<in> set (preorder v)"
    by (simp add: descendants_in_preorder)
  with v u show ?thesis by auto
qed

lemma parent_before_descendant:
  assumes "shape_of s t" and "p \<in> set (preorder t)" and "(p, d) \<in> (child_rel s)\<^sup>+"
  shows "\<exists>pre mid post. preorder t = pre @ p # mid @ d # post"
proof -
  from subtree_segment [OF assms(1,2)] obtain u pre post
    where u: "shape_of s u" "tree_node u = p" and seg: "preorder t = pre @ preorder u @ post"
    by blast
  from u(2) assms(3) have "(tree_node u, d) \<in> (child_rel s)\<^sup>+" by simp
  with u(1) have "d \<in> set (concat (map preorder (subtrees u)))"
    by (rule proper_descendants_below)
  then obtain mid post' where "concat (map preorder (subtrees u)) = mid @ d # post'"
    by (blast dest: split_list)
  with u(2) have "preorder u = p # mid @ d # post'"
    by (cases u) simp
  with seg have "preorder t = pre @ p # mid @ d # (post' @ post)" by simp
  then show ?thesis by blast
qed

lemma walk_of_children:
  assumes "shape_of s t"
  shows "map (\<lambda>c. the (walk_children s c True)) (children (heap s (tree_node t)))
    = map preorder (subtrees t)"
proof -
  obtain a ts where t: "t = DomTree a ts" by (cases t)
  from assms t have kids: "children (heap s a) = map tree_node ts"
    and sub: "\<forall>u \<in> set ts. shape_of s u" by simp_all
  from sub have "map (\<lambda>u. the (walk_children s (tree_node u) True)) ts = map preorder ts"
    by (simp add: walk_children_with_self)
  with t kids show ?thesis by (simp add: comp_def)
qed

text \<open>
  C3. When the heap below a node is a finite tree, \<^verbatim>\<open>walk_children(with_self=True)\<close>
  ends, and the list of nodes its loop over the explicit stack yields is the recursive
  depth-first pre-order of the tree. It holds exactly the nodes reachable from the start
  node through children lists, each once; the start node is first; every node that has a
  proper descendant stands strictly before that descendant; and after the start node come
  the complete walks of its children, one after the other in the order of the children
  list.
\<close>

theorem walk_children_preorder:
  assumes "shape_of s t" and "distinct (preorder t)"
  shows "\<exists>ys. walk_children s (tree_node t) True = Some ys
      \<and> ys = preorder t
      \<and> set ys = {d. (tree_node t, d) \<in> (child_rel s)\<^sup>*}
      \<and> distinct ys
      \<and> hd ys = tree_node t
      \<and> (\<forall>p d. p \<in> set ys \<and> (p, d) \<in> (child_rel s)\<^sup>+
            \<longrightarrow> (\<exists>pre mid post. ys = pre @ p # mid @ d # post))
      \<and> ys = tree_node t
            # concat (map (\<lambda>c. the (walk_children s c True)) (children (heap s (tree_node t))))"
proof -
  have walk: "walk_children s (tree_node t) True = Some (preorder t)"
    using assms(1) by (rule walk_children_with_self)
  have all: "set (preorder t) = {d. (tree_node t, d) \<in> (child_rel s)\<^sup>*}"
    using assms(1) by (auto intro: preorder_descendants descendants_in_preorder)
  have first: "hd (preorder t) = tree_node t"
    by (rule hd_preorder)
  have before: "\<forall>p d. p \<in> set (preorder t) \<and> (p, d) \<in> (child_rel s)\<^sup>+
      \<longrightarrow> (\<exists>pre mid post. preorder t = pre @ p # mid @ d # post)"
    using assms(1) by (blast intro: parent_before_descendant)
  have "preorder t = tree_node t # concat (map preorder (subtrees t))"
    by (cases t) simp
  then have order: "preorder t = tree_node t
      # concat (map (\<lambda>c. the (walk_children s c True)) (children (heap s (tree_node t))))"
    by (simp only: walk_of_children [OF assms(1)])
  from walk all assms(2) first before order show ?thesis by blast
qed

theorem walk_children_preorder_witness:
  "walk_children family 0 True = Some [0, 1, 2, 3]"
proof -
  have shape: "shape_of family family_tree"
    by (simp add: family_tree_def family_def fresh_node_def)
  have dist: "distinct (preorder family_tree)"
    by (simp add: family_tree_def)
  have pre: "preorder family_tree = [0, 1, 2, 3]" "tree_node family_tree = 0"
    by (simp_all add: family_tree_def)
  from walk_children_preorder [OF shape dist] pre show ?thesis by auto
qed

end
